theory Spec2Isabelle
  imports Main "HOL-Library.Sublist"
begin

section \<open>Prompt construction\<close>

text \<open>
  The notebook \<^verbatim>\<open>posts/llama-cpp-radiology-report-labeling.ipynb\<close> builds its prompt with
  three f-strings. Every interpolated variable is a Python \<^verbatim>\<open>str\<close>, so interpolation is
  concatenation. Text is modelled as \<^typ>\<open>string\<close>; a line break of the source is the
  character \<open>0x0A\<close>.
\<close>

definition nl :: string where
  "nl = [CHR 0x0A]"

text \<open>
  Cell "Construct User prompt":
  \<^verbatim>\<open>prompt = f'''\n```{report_text}```\nPlease extract ... schema:\n```{schema}```\n{additional_instructions}\n'''\<close>
\<close>

definition prompt_fstring :: "string \<Rightarrow> string \<Rightarrow> string \<Rightarrow> string" where
  "prompt_fstring report_text' schema' additional_instructions' =
     nl @ ''```'' @ report_text' @ ''```'' @ nl
     @ ''Please extract the findings from the preceding text radiology report using the following JSON schema:'' @ nl
     @ ''```'' @ schema' @ ''```'' @ nl
     @ additional_instructions' @ nl"

text \<open>
  Cell "Llama-2-Chat & Mistral-7B-Instruct-v0.1 prompt templates":
  \<^verbatim>\<open>llama2_prompt_template = f'''[INST] <<SYS>>\n{system}\n<</SYS>>\n{prompt}[/INST]\n'''\<close> and
  \<^verbatim>\<open>mistral_prompt_template = f'''<s>[INST] {system} {prompt} [/INST]'''\<close>.
\<close>

definition llama2_fstring :: "string \<Rightarrow> string \<Rightarrow> string" where
  "llama2_fstring system' prompt' =
     ''[INST] <<SYS>>'' @ nl @ system' @ nl @ ''<</SYS>>'' @ nl @ prompt' @ ''[/INST]'' @ nl"

definition mistral_fstring :: "string \<Rightarrow> string \<Rightarrow> string" where
  "mistral_fstring system' prompt' =
     ''<s>[INST] '' @ system' @ '' '' @ prompt' @ '' [/INST]''"

text \<open>
  Cell "Generate LLM response and print response text" selects the template:
  \<^verbatim>\<open>if model == "llama-2": full_prompt = llama2_prompt_template
  else: full_prompt = mistral_prompt_template\<close>
\<close>

definition select_template :: "string \<Rightarrow> string \<Rightarrow> string \<Rightarrow> string" where
  "select_template model' llama2 mistral = (if model' = ''llama-2'' then llama2 else mistral)"

section \<open>The recursive brace pattern\<close>

text \<open>
  \<^verbatim>\<open>json_from_str\<close> compiles \<^verbatim>\<open>r'\{(?:[^{}]*|(?R))*\}'\<close> with the third-party
  \<^verbatim>\<open>regex\<close> module, where \<^verbatim>\<open>(?R)\<close> recurses into the whole pattern. The words the
  pattern derives are given as \<open>pattern\<close>; \<open>alternatives\<close> is the starred group
  \<^verbatim>\<open>(?:[^{}]*|(?R))*\<close>. Quote characters are ordinary members of \<^verbatim>\<open>[^{}]\<close>.
\<close>

inductive pattern :: "string \<Rightarrow> bool" and alternatives :: "string \<Rightarrow> bool" where
  pattern: "alternatives w \<Longrightarrow> pattern (CHR ''{'' # w @ [CHR ''}''])"
| star_nil: "alternatives []"
| star_run: "\<lbrakk>\<forall>c\<in>set u. c \<noteq> CHR ''{'' \<and> c \<noteq> CHR ''}''; alternatives w\<rbrakk> \<Longrightarrow> alternatives (u @ w)"
| star_rec: "\<lbrakk>pattern v; alternatives w\<rbrakk> \<Longrightarrow> alternatives (v @ w)"

text \<open>
  The executable matcher. \<open>close_brace d s\<close> reads \<open>s\<close> with \<open>d + 1\<close> braces open and
  returns the text up to and including the brace that closes the outermost one, with the
  rest of the input; \<open>match_here\<close> is one match attempt of the pattern at the head of the
  input. Lemma \<open>match_here_iff\<close> below shows that it returns exactly the word of
  \<open>pattern\<close> that starts there, which is unique, so the order in which a backtracking
  engine tries the alternatives cannot change the result. The engine's own recursion and
  time limits are not part of the model.
\<close>

fun close_brace :: "nat \<Rightarrow> string \<Rightarrow> (string \<times> string) option" where
  "close_brace d [] = None"
| "close_brace d (c # cs) =
     (if c = CHR ''{'' then map_option (apfst ((#) c)) (close_brace (Suc d) cs)
      else if c = CHR ''}'' then
        (case d of 0 \<Rightarrow> Some ([c], cs)
         | Suc d' \<Rightarrow> map_option (apfst ((#) c)) (close_brace d' cs))
      else map_option (apfst ((#) c)) (close_brace d cs))"

fun match_here :: "string \<Rightarrow> (string \<times> string) option" where
  "match_here [] = None"
| "match_here (c # cs) =
     (if c = CHR ''{'' then map_option (apfst ((#) c)) (close_brace 0 cs) else None)"

lemma close_brace_split: "close_brace d s = Some (m, r) \<Longrightarrow> s = m @ r \<and> m \<noteq> []"
  by (induction s arbitrary: d m r) (auto split: if_splits nat.splits)

lemma match_here_split: "match_here s = Some (m, r) \<Longrightarrow> s = m @ r \<and> m \<noteq> []"
  by (cases s) (auto split: if_splits dest: close_brace_split)

text \<open>
  \<^verbatim>\<open>expr.findall(s)\<close>: the matches from left to right, without overlap. The scan resumes
  behind a match, and one character further where no match starts. The pattern has no
  capture group, so each result is the matched text. A match is never empty, which is
  what the termination proof uses.
\<close>

function findall :: "string \<Rightarrow> string list" where
  "findall [] = []"
| "findall (c # cs) =
     (case match_here (c # cs) of
        None \<Rightarrow> findall cs
      | Some (m, r) \<Rightarrow> m # findall r)"
  by pat_completeness auto
termination
proof (relation "measure length")
  show "wf (measure length)" by simp
next
  fix c cs show "(cs, c # cs) \<in> measure length" by simp
next
  fix c cs x2 x y
  assume "match_here (c # cs) = Some x2" "(x, y) = x2"
  then have "match_here (c # cs) = Some (x, y)" by simp
  from match_here_split[OF this] show "(y, c # cs) \<in> measure length" by (cases x) auto
qed

text \<open>
  Two notions for stating what the scan finds. \<open>leftmost pre s\<close>: no word of the pattern
  starts in \<open>s\<close> before position \<open>length pre\<close>. \<open>closes d m\<close>: the text \<open>m\<close> closes
  \<open>d + 1\<close> open braces, each after a word of the starred group; it describes what
  \<open>close_brace d\<close> returns.
\<close>

definition leftmost :: "string \<Rightarrow> string \<Rightarrow> bool" where
  "leftmost pre s \<longleftrightarrow> (\<forall>p x q. s = p @ x @ q \<and> pattern x \<longrightarrow> length pre \<le> length p)"

inductive closes :: "nat \<Rightarrow> string \<Rightarrow> bool" where
  closes_0: "alternatives w \<Longrightarrow> closes 0 (w @ [CHR ''}''])"
| closes_Suc: "alternatives w \<Longrightarrow> closes d m \<Longrightarrow> closes (Suc d) (w @ CHR ''}'' # m)"

section \<open>The JSON decoder\<close>

text \<open>
  \<^verbatim>\<open>json.loads\<close> is the decoder of Python's standard library, with its default
  arguments. The model follows CPython's scanner: \<^verbatim>\<open>scanstring\<close>, the number matcher and
  \<^verbatim>\<open>scan_once\<close> with its object and array loops. Input characters are code points below
  256; a decoded string is a list of code points, because \<^verbatim>\<open>\uXXXX\<close> escapes reach beyond
  that range. A Python \<^verbatim>\<open>float\<close> is kept as the numeral that denotes it; a \<^verbatim>\<open>dict\<close> is an
  association list in insertion order with distinct keys. Every \<^verbatim>\<open>JSONDecodeError\<close> is
  the one value \<open>JSONDecodeError\<close>; the interpreter's recursion limit is not modelled.
\<close>

datatype json =
    JNull
  | JBool bool
  | JInt int
  | JFloat string
  | JNaN
  | JInfinity
  | JNegInfinity
  | JString "nat list"
  | JArray "json list"
  | JObject "(nat list \<times> json) list"

text \<open>Whitespace is space, tab, line feed and carriage return.\<close>

definition is_whitespace :: "char \<Rightarrow> bool" where
  "is_whitespace c = (c = CHR '' '' \<or> c = CHR 0x09 \<or> c = CHR 0x0A \<or> c = CHR 0x0D)"

definition skip_whitespace :: "string \<Rightarrow> string" where
  "skip_whitespace s = dropWhile is_whitespace s"

definition is_digit :: "char \<Rightarrow> bool" where
  "is_digit c = (48 \<le> (of_char c :: nat) \<and> (of_char c :: nat) \<le> 57)"

text \<open>
  Strings. \<open>scanstring\<close> reads behind the opening quote up to the closing one. A
  backslash starts an escape: one of the eight single-character escapes, or \<^verbatim>\<open>u\<close> with four
  hexadecimal digits and at least one character after them. A high surrogate that is
  followed by the escape of a low surrogate is joined with it into one code point. A
  character below \<open>0x20\<close> is rejected (\<^verbatim>\<open>strict=True\<close>), and so is the end of the input.
\<close>

definition hex_digit :: "char \<Rightarrow> nat option" where
  "hex_digit c =
     (let n = (of_char c :: nat) in
      if 48 \<le> n \<and> n \<le> 57 then Some (n - 48)
      else if 97 \<le> n \<and> n \<le> 102 then Some (n - 87)
      else if 65 \<le> n \<and> n \<le> 70 then Some (n - 55)
      else None)"

fun decode_hex4 :: "string \<Rightarrow> nat option" where
  "decode_hex4 (a # b # c # d # _) =
     (case (hex_digit a, hex_digit b, hex_digit c, hex_digit d) of
        (Some x3, Some x2, Some x1, Some x0) \<Rightarrow> Some (((x3 * 16 + x2) * 16 + x1) * 16 + x0)
      | _ \<Rightarrow> None)"
| "decode_hex4 _ = None"

definition backslash :: "char \<Rightarrow> nat option" where
  "backslash e =
     (if e = CHR 0x22 then Some 0x22
      else if e = CHR 0x5C then Some 0x5C
      else if e = CHR ''/'' then Some 0x2F
      else if e = CHR ''b'' then Some 0x08
      else if e = CHR ''f'' then Some 0x0C
      else if e = CHR ''n'' then Some 0x0A
      else if e = CHR ''r'' then Some 0x0D
      else if e = CHR ''t'' then Some 0x09
      else None)"

definition is_high_surrogate :: "nat \<Rightarrow> bool" where
  "is_high_surrogate u = (0xD800 \<le> u \<and> u \<le> 0xDBFF)"

definition is_low_surrogate :: "nat \<Rightarrow> bool" where
  "is_low_surrogate u = (0xDC00 \<le> u \<and> u \<le> 0xDFFF)"

definition join_surrogates :: "nat \<Rightarrow> nat \<Rightarrow> nat" where
  "join_surrogates hi lo = 0x10000 + ((hi - 0xD800) * 0x400 + (lo - 0xDC00))"

definition cons_chunk :: "nat \<Rightarrow> (nat list \<times> string) option \<Rightarrow> (nat list \<times> string) option" where
  "cons_chunk u r = map_option (apfst ((#) u)) r"

definition scan_escape :: "string \<Rightarrow> (nat \<times> string) option" where
  "scan_escape cs =
     (case cs of
        [] \<Rightarrow> None
      | e # es \<Rightarrow>
          if e \<noteq> CHR ''u'' then
            (case backslash e of
               None \<Rightarrow> None
             | Some u \<Rightarrow> Some (u, es))
          else if length es \<le> 4 then None
          else
            (case decode_hex4 es of
               None \<Rightarrow> None
             | Some u \<Rightarrow>
                 if is_high_surrogate u \<and> 6 < length (drop 4 es)
                    \<and> take 2 (drop 4 es) = [CHR 0x5C, CHR ''u'']
                 then
                   (case decode_hex4 (drop 6 es) of
                      None \<Rightarrow> None
                    | Some u2 \<Rightarrow>
                        if is_low_surrogate u2
                        then Some (join_surrogates u u2, drop 10 es)
                        else Some (u, drop 4 es))
                 else Some (u, drop 4 es)))"

lemma scan_escape_shorter:
  assumes "scan_escape cs = Some (u, r)" shows "length r < length cs"
proof (cases cs)
  case Nil
  with assms show ?thesis by (simp add: scan_escape_def)
next
  case (Cons e es)
  with assms have "r = es \<or> r = drop 4 es \<or> r = drop 10 es"
    by (simp add: scan_escape_def split: if_splits option.splits)
  with Cons show ?thesis by auto
qed

function scanstring :: "string \<Rightarrow> (nat list \<times> string) option" where
  "scanstring [] = None"
| "scanstring (c # cs) =
     (if c = CHR 0x22 then Some ([], cs)
      else if c = CHR 0x5C then
        (case scan_escape cs of
           None \<Rightarrow> None
         | Some (u, r) \<Rightarrow> cons_chunk u (scanstring r))
      else if (of_char c :: nat) \<le> 0x1F then None
      else cons_chunk (of_char c) (scanstring cs))"
  by pat_completeness auto
termination
  by (relation "measure length") (auto dest: scan_escape_shorter)

lemma scanstring_shorter: "scanstring s = Some (k, r) \<Longrightarrow> length r < length s"
proof (induction s arbitrary: k r rule: scanstring.induct)
  case 1
  then show ?case by simp
next
  case (2 c cs)
  show ?case
  proof (cases "c = CHR 0x22")
    case True
    with "2.prems" show ?thesis by simp
  next
    case nq: False
    show ?thesis
    proof (cases "c = CHR 0x5C")
      case True
      with nq "2.prems" obtain u r' k' where e: "scan_escape cs = Some (u, r')"
        and k': "scanstring r' = Some (k', r)"
        by (auto simp: cons_chunk_def split: option.splits)
      from "2.IH"(1)[OF nq True e refl k'] scan_escape_shorter[OF e] show ?thesis by simp
    next
      case False
      with nq "2.prems" obtain k' where "\<not> (of_char c :: nat) \<le> 0x1F" "scanstring cs = Some (k', r)"
        by (auto simp: cons_chunk_def split: if_splits)
      with "2.IH"(2)[OF nq False] show ?thesis by fastforce
    qed
  qed
qed

text \<open>
  Numbers: an optional minus sign, then \<^verbatim>\<open>0\<close> or a digit run that does not start with
  \<^verbatim>\<open>0\<close>; a fraction if a point and a digit follow; an exponent if \<^verbatim>\<open>e\<close> or \<^verbatim>\<open>E\<close>, an optional
  sign and at least one digit follow (the scanner steps back before the \<^verbatim>\<open>e\<close>
  otherwise). The number is an \<^verbatim>\<open>int\<close> when it has neither fraction nor exponent.
\<close>

definition int_of_digits :: "string \<Rightarrow> int" where
  "int_of_digits ds = foldl (\<lambda>a c. 10 * a + (int (of_char c) - 48)) 0 ds"

definition int_part :: "string \<Rightarrow> (string \<times> string) option" where
  "int_part s =
     (case s of
        [] \<Rightarrow> None
      | d # r \<Rightarrow>
          if is_digit d \<and> d \<noteq> CHR ''0'' then Some (d # takeWhile is_digit r, dropWhile is_digit r)
          else if d = CHR ''0'' then Some ([d], r)
          else None)"

definition frac_part :: "string \<Rightarrow> string \<times> string" where
  "frac_part s =
     (case s of
        p # f # r \<Rightarrow>
          if p = CHR ''.'' \<and> is_digit f
          then (p # takeWhile is_digit (f # r), dropWhile is_digit (f # r))
          else ([], s)
      | _ \<Rightarrow> ([], s))"

definition exp_part :: "string \<Rightarrow> string \<times> string" where
  "exp_part s =
     (case s of
        e # x # r \<Rightarrow>
          if e = CHR ''e'' \<or> e = CHR ''E'' then
            (let (sign, r1) = (if (x = CHR ''-'' \<or> x = CHR ''+'') \<and> r \<noteq> [] then ([x], r) else ([], x # r));
                 ds = takeWhile is_digit r1
             in if ds \<noteq> [] then (e # sign @ ds, dropWhile is_digit r1) else ([], s))
          else ([], s)
      | _ \<Rightarrow> ([], s))"

definition match_number :: "string \<Rightarrow> (json \<times> string) option" where
  "match_number s =
     (let (sign, s1) = (case s of [] \<Rightarrow> ([], s) | c # r \<Rightarrow> if c = CHR ''-'' then ([c], r) else ([], s))
      in case int_part s1 of
           None \<Rightarrow> None
         | Some (ip, s2) \<Rightarrow>
             (let (fp, s3) = frac_part s2; (ep, s4) = exp_part s3
              in if fp = [] \<and> ep = []
                 then Some (JInt (if sign = [] then int_of_digits ip else - int_of_digits ip), s4)
                 else Some (JFloat (sign @ ip @ fp @ ep), s4)))"

text \<open>
  \<^verbatim>\<open>rval[key] = val\<close> on a \<^verbatim>\<open>dict\<close>: a key that is present keeps its position and gets the new
  value, a new key goes to the end.
\<close>

fun dict_setitem :: "('k \<times> 'v) list \<Rightarrow> 'k \<Rightarrow> 'v \<Rightarrow> ('k \<times> 'v) list" where
  "dict_setitem [] k v = [(k, v)]"
| "dict_setitem ((k', v') # d) k v =
     (if k' = k then (k', v) # d else (k', v') # dict_setitem d k v)"

lemma skip_whitespace_length: "length (skip_whitespace s) \<le> length s"
  by (simp add: skip_whitespace_def length_dropWhile_le)

lemma skip_whitespace_Cons: "skip_whitespace s = x # r \<Longrightarrow> length r < length s"
  using skip_whitespace_length[of s] by simp

lemma skip_drop1: "s \<noteq> [] \<Longrightarrow> length (skip_whitespace (drop 1 s)) < length s"
  using skip_whitespace_length[of "drop 1 s"] by (cases s) auto

text \<open>
  \<open>scan_once\<close> reads one JSON value at the head of the input and returns it with the rest.
  \<open>parse_object rval s\<close> is the loop of the object parser at a key, with the pairs read so
  far; \<open>parse_array rval s\<close> is the loop of the array parser at a value. Both loops go on
  behind the value just read. The test that this rest is no longer than \<open>s\<close> is there for
  the termination proof only: it never fails (lemmas \<open>parse_object_unguarded\<close> and
  \<open>parse_array_unguarded\<close>).
\<close>

function scan_once :: "string \<Rightarrow> (json \<times> string) option"
  and parse_object :: "(nat list \<times> json) list \<Rightarrow> string \<Rightarrow> (json \<times> string) option"
  and parse_array :: "json list \<Rightarrow> string \<Rightarrow> (json \<times> string) option"
where
  "scan_once [] = None"
| "scan_once (c # cs) =
     (if c = CHR 0x22 then map_option (apfst JString) (scanstring cs)
      else if c = CHR ''{'' then
        (let s1 = skip_whitespace cs
         in if take 1 s1 = ''}'' then Some (JObject [], drop 1 s1) else parse_object [] s1)
      else if c = CHR ''['' then
        (let s1 = skip_whitespace cs
         in if take 1 s1 = '']'' then Some (JArray [], drop 1 s1) else parse_array [] s1)
      else if take 4 (c # cs) = ''null'' then Some (JNull, drop 3 cs)
      else if take 4 (c # cs) = ''true'' then Some (JBool True, drop 3 cs)
      else if take 5 (c # cs) = ''false'' then Some (JBool False, drop 4 cs)
      else if take 3 (c # cs) = ''NaN'' then Some (JNaN, drop 2 cs)
      else if take 8 (c # cs) = ''Infinity'' then Some (JInfinity, drop 7 cs)
      else if take 9 (c # cs) = ''-Infinity'' then Some (JNegInfinity, drop 8 cs)
      else match_number (c # cs))"
| "parse_object rval s =
     (if take 1 s \<noteq> [CHR 0x22] then None
      else case scanstring (drop 1 s) of
        None \<Rightarrow> None
      | Some (key, s2) \<Rightarrow>
          (let s3 = skip_whitespace s2
           in if take 1 s3 \<noteq> '':'' then None
              else case scan_once (skip_whitespace (drop 1 s3)) of
                None \<Rightarrow> None
              | Some (val, s4) \<Rightarrow>
                  (let rval' = dict_setitem rval key val; s5 = skip_whitespace s4
                   in if take 1 s5 = ''}'' then Some (JObject rval', drop 1 s5)
                      else if take 1 s5 \<noteq> '','' then None
                      else if length s5 \<le> length s then parse_object rval' (skip_whitespace (drop 1 s5))
                      else None)))"
| "parse_array rval s =
     (case scan_once s of
        None \<Rightarrow> None
      | Some (val, s1) \<Rightarrow>
          (let rval' = rval @ [val]; s2 = skip_whitespace s1
           in if take 1 s2 = '']'' then Some (JArray rval', drop 1 s2)
              else if take 1 s2 \<noteq> '','' then None
              else if length s2 \<le> length s then parse_array rval' (skip_whitespace (drop 1 s2))
              else None))"
  by pat_completeness auto
termination
proof (relation "measure (\<lambda>x. case x of Inl s \<Rightarrow> 2 * length s
                                 | Inr (Inl (_, s)) \<Rightarrow> 2 * length s + 1
                                 | Inr (Inr (_, s)) \<Rightarrow> 2 * length s + 1)", goal_cases)
  case 1
  show ?case by simp
next
  case (2 c cs s1)
  then show ?case using skip_whitespace_length[of cs] by simp
next
  case (3 c cs s1)
  then show ?case using skip_whitespace_length[of cs] by simp
next
  case (4 rval s x key s2 s3)
  from 4(1) obtain q t where s: "s = q # t" by (cases s) auto
  from 4(2,3) s have "length s2 < length t" by (auto dest: scanstring_shorter)
  moreover from 4 have "take 1 s3 = '':''" by simp
  then have "s3 \<noteq> []" by auto
  then have "length (skip_whitespace (drop 1 s3)) < length s3" by (rule skip_drop1)
  moreover have "length s3 \<le> length s2" using 4(4) skip_whitespace_length[of s2] by simp
  ultimately show ?case using s by simp
next
  case (5 rval s x key s2 s3 x2 val s4 rval' s5)
  from 5 have "take 1 s5 = '',''" "length s5 \<le> length s" by simp_all
  then have "s5 \<noteq> []" by auto
  from skip_drop1[OF this] \<open>length s5 \<le> length s\<close> show ?case by simp
next
  case (6 rval s)
  show ?case by simp
next
  case (7 rval s x2 val s1 rval' s2)
  from 7 have "take 1 s2 = '',''" "length s2 \<le> length s" by simp_all
  then have "s2 \<noteq> []" by auto
  from skip_drop1[OF this] \<open>length s2 \<le> length s\<close> show ?case by simp
qed

text \<open>
  \<^verbatim>\<open>json.loads(s)\<close>: whitespace, one value, whitespace, end of the text; anything else raises
  \<^verbatim>\<open>JSONDecodeError\<close>.
\<close>

datatype exn = JSONDecodeError

definition json_loads :: "string \<Rightarrow> exn + json" where
  "json_loads s =
     (case scan_once (skip_whitespace s) of
        None \<Rightarrow> Inl JSONDecodeError
      | Some (obj, r) \<Rightarrow> if skip_whitespace r = [] then Inr obj else Inl JSONDecodeError)"

text \<open>The code points of a text, for writing decoded strings and keys.\<close>

definition code_points :: "string \<Rightarrow> nat list" where
  "code_points s = map of_char s"

section \<open>Response extraction\<close>

text \<open>
  \<^verbatim>\<open>def json_from_str(s):
      expr = re.compile(r'\{(?:[^{}]*|(?R))*\}')
      res = expr.findall(s)
      return json.loads(res[0]) if res else None\<close>
  \<open>Inl\<close> is the exception that \<^verbatim>\<open>json.loads\<close> raises, \<open>Inr None\<close> is Python's \<^verbatim>\<open>None\<close>.
\<close>

definition json_from_str :: "string \<Rightarrow> exn + json option" where
  "json_from_str s =
     (case findall s of
        [] \<Rightarrow> Inr None
      | m # _ \<Rightarrow> (case json_loads m of Inl e \<Rightarrow> Inl e | Inr v \<Rightarrow> Inr (Some v)))"

section \<open>The notebook as a state\<close>

text \<open>
  The notebook's cells assign global variables of one Python kernel. The kernel's
  variables that the cells below read or write form the record \<open>globals\<close>; a cell is a
  function on it. A form field (\<^verbatim>\<open># @param\<close>) or an edited literal is the cell's
  argument. \<^verbatim>\<open>id\<close> is written \<open>id'\<close>. The completion call \<^verbatim>\<open>lcpp_llm(prompt=full_prompt, ...)\<close>
  is outside the repository: it is a parameter that maps the prompt to the text of the
  first choice.
\<close>

record globals =
  model :: string
  model_name :: string
  model_basename :: string
  system :: string
  schema :: string
  report_text :: string
  additional_instructions :: string
  prompt :: string
  llama2_prompt_template :: string
  mistral_prompt_template :: string
  full_prompt :: string
  res_txt :: string
  id' :: int
  labels :: "json option"
  result_dict :: "int \<rightharpoonup> json option"

text \<open>Cell "Select the model you'd like to test".\<close>

definition select_model_cell :: "string \<Rightarrow> globals \<Rightarrow> globals" where
  "select_model_cell m g =
     (if m = ''llama-2''
      then g\<lparr>model := m, model_name := ''TheBloke/Llama-2-7b-Chat-GGUF'',
             model_basename := ''llama-2-7b-chat.Q4_K_M.gguf''\<rparr>
      else g\<lparr>model := m, model_name := ''TheBloke/Mistral-7B-Instruct-v0.1-GGUF'',
             model_basename := ''mistral-7b-instruct-v0.1.Q4_K_M.gguf''\<rparr>)"

text \<open>Cells "System prompt", "Construct JSON schema" and "Provide a sample chest radiograph report".\<close>

definition system_prompt_cell :: "string \<Rightarrow> globals \<Rightarrow> globals" where
  "system_prompt_cell txt g = g\<lparr>system := txt\<rparr>"

definition schema_cell :: "string \<Rightarrow> globals \<Rightarrow> globals" where
  "schema_cell txt g = g\<lparr>schema := txt\<rparr>"

definition report_cell :: "string \<Rightarrow> globals \<Rightarrow> globals" where
  "report_cell txt g = g\<lparr>report_text := txt\<rparr>"

text \<open>Cell "Construct User prompt".\<close>

definition user_prompt_cell :: "string \<Rightarrow> globals \<Rightarrow> globals" where
  "user_prompt_cell txt g =
     g\<lparr>additional_instructions := txt,
       prompt := prompt_fstring (report_text g) (schema g) txt\<rparr>"

text \<open>Cell "Llama-2-Chat & Mistral-7B-Instruct-v0.1 prompt templates".\<close>

definition templates_cell :: "globals \<Rightarrow> globals" where
  "templates_cell g =
     g\<lparr>llama2_prompt_template := llama2_fstring (system g) (prompt g),
       mistral_prompt_template := mistral_fstring (system g) (prompt g)\<rparr>"

text \<open>
  Cell "Generate LLM response and print response text": the template is selected, then the
  completion is requested and its text stored.
\<close>

definition select_full_prompt :: "globals \<Rightarrow> globals" where
  "select_full_prompt g =
     g\<lparr>full_prompt := select_template (model g) (llama2_prompt_template g) (mistral_prompt_template g)\<rparr>"

definition generate_cell :: "(string \<Rightarrow> string) \<Rightarrow> globals \<Rightarrow> globals" where
  "generate_cell lcpp_llm g =
     (let g' = select_full_prompt g in g'\<lparr>res_txt := lcpp_llm (full_prompt g')\<rparr>)"

text \<open>
  Cell "Assign an ID number to the report and associate extracted labels with the report ID":
  \<^verbatim>\<open>id = 1; labels = json_from_str(res_txt); result_dict = {id: labels}\<close>.
  An exception of \<^verbatim>\<open>json_from_str\<close> leaves the cell after \<^verbatim>\<open>id = 1\<close>; the model returns the
  exception.
\<close>

definition extract_cell :: "globals \<Rightarrow> exn + globals" where
  "extract_cell g =
     (case json_from_str (res_txt g) of
        Inl e \<Rightarrow> Inl e
      | Inr l \<Rightarrow> Inr (g\<lparr>id' := 1, labels := l, result_dict := [1 \<mapsto> l]\<rparr>))"

text \<open>
  The schema literal of the cell "Construct JSON schema", and the completion of the
  recorded run: the text that the notebook shows as printed by \<^verbatim>\<open>print(res_txt)\<close> under the
  cell "Generate LLM response and print response text", without the line break that
  \<^verbatim>\<open>print\<close> appends.
\<close>

definition notebook_schema :: string where
  "notebook_schema =
     nl @ ''{'' @ nl @
     ''    \"cardiomegaly\": { \"type\": \"boolean\" },'' @ nl @
     ''    \"lung_opacity\": { \"type\": \"boolean\" },'' @ nl @
     ''    \"pneumothorax\": { \"type\": \"boolean\" },'' @ nl @
     ''    \"pleural_effusion\": { \"type\": \"boolean\" },'' @ nl @
     ''    \"pulmonary_edema\": { \"type\": \"boolean\" },'' @ nl @
     ''    \"abnormal_study\": { \"type\": \"boolean\" }'' @ nl @
     ''}'' @ nl"

definition notebook_res_txt :: string where
  "notebook_res_txt =
     ''Of course! I'd be happy to help you analyze the radiology report. Here are my findings based on the JSON schema provided:'' @ nl @
     ''{'' @ nl @
     ''\"cardiomegaly\": false,'' @ nl @
     ''\"lung_opacity\": true,'' @ nl @
     ''\"pneumothorax\": false,'' @ nl @
     ''\"pleural_effusion\": false,'' @ nl @
     ''\"pulmonary_rama\": false,'' @ nl @
     ''\"abnormal_study\": true'' @ nl @
     ''}'' @ nl @
     ''Explanation:'' @ nl @
     ''The report states that there is no focal consolidation, pneumothorax, or pleural effusion. However, it does mention that the cardiomediastinal silhouette is stable and unremarkable, which suggests that there are no signs of cardiac tamponade or other abnormalities in this area. Additionally, the report states that no acute osseous abnormalities were identified, which means that there are no bone fractures or dislocations present. Finally, the report concludes that there is an abnormal study, which indicates that something unusual was detected during the imaging process.'' @ nl @
     ''I hope this helps! Let me know if you have any further questions.''"

text \<open>
  The kernel before any cell has run. Python has no binding for a variable then; the
  record holds an empty value in its place.
\<close>

definition kernel_start :: globals where
  "kernel_start =
     \<lparr>model = [], model_name = [], model_basename = [], system = [], schema = [],
      report_text = [], additional_instructions = [], prompt = [],
      llama2_prompt_template = [], mistral_prompt_template = [], full_prompt = [],
      res_txt = [], id' = 0, labels = None, result_dict = Map.empty\<rparr>"

section \<open>The matcher returns the words of the pattern\<close>

lemma close_brace_skip:
  "(pattern v \<longrightarrow> (\<forall>d r. close_brace d (v @ r) = map_option (apfst ((@) v)) (close_brace d r)))
 \<and> (alternatives w \<longrightarrow> (\<forall>d r. close_brace d (w @ r) = map_option (apfst ((@) w)) (close_brace d r)))"
proof (induction rule: pattern_alternatives.induct)
  case (pattern w)
  show ?case
    by (simp add: pattern option.map_comp comp_def apfst_def map_prod_def split_def)
next
  case star_nil
  show ?case by (simp add: option.map_ident apfst_def map_prod_def)
next
  case (star_run u w)
  have "close_brace d (u @ x) = map_option (apfst ((@) u)) (close_brace d x)" for d x
    using star_run(1)
    by (induction u) (auto simp: option.map_comp comp_def apfst_def map_prod_def split_def option.map_ident)
  with star_run show ?case
    by (simp add: option.map_comp comp_def apfst_def map_prod_def split_def)
next
  case (star_rec v w)
  then show ?case
    by (simp add: option.map_comp comp_def apfst_def map_prod_def split_def)
qed

lemma match_here_complete:
  assumes "pattern v" shows "match_here (v @ r) = Some (v, r)"
  using assms
proof cases
  case (pattern w)
  with close_brace_skip[of v w] have
    "close_brace 0 (w @ CHR ''}'' # r) = map_option (apfst ((@) w)) (close_brace 0 (CHR ''}'' # r))"
    by blast
  with pattern show ?thesis by simp
qed

lemma closes_char:
  assumes "closes d m" "c \<noteq> CHR ''{''" "c \<noteq> CHR ''}''" shows "closes d (c # m)"
  using assms(1)
proof cases
  case (closes_0 w)
  from assms(2,3) closes_0(3) have "alternatives ([c] @ w)" by (intro star_run) auto
  then have "closes 0 (([c] @ w) @ [CHR ''}''])" by (rule closes.closes_0)
  with closes_0 show ?thesis by simp
next
  case (closes_Suc w d' m')
  from assms(2,3) closes_Suc(3) have "alternatives ([c] @ w)" by (intro star_run) auto
  then have "closes (Suc d') (([c] @ w) @ CHR ''}'' # m')" using closes_Suc(4) by (rule closes.closes_Suc)
  with closes_Suc show ?thesis by simp
qed

lemma closes_pattern:
  assumes "closes d m" "pattern v" shows "closes d (v @ m)"
  using assms(1)
proof cases
  case (closes_0 w)
  from assms(2) closes_0(3) have "alternatives (v @ w)" by (rule star_rec)
  then have "closes 0 ((v @ w) @ [CHR ''}''])" by (rule closes.closes_0)
  with closes_0 show ?thesis by simp
next
  case (closes_Suc w d' m')
  from assms(2) closes_Suc(3) have "alternatives (v @ w)" by (rule star_rec)
  then have "closes (Suc d') ((v @ w) @ CHR ''}'' # m')" using closes_Suc(4) by (rule closes.closes_Suc)
  with closes_Suc show ?thesis by simp
qed

lemma close_brace_sound: "close_brace d s = Some (m, r) \<Longrightarrow> closes d m"
proof (induction s arbitrary: d m r)
  case Nil
  then show ?case by simp
next
  case (Cons c cs)
  show ?case
  proof (cases "c = CHR ''{''")
    case True
    with Cons.prems obtain m' where m': "close_brace (Suc d) cs = Some (m', r)" "m = c # m'"
      by auto
    from Cons.IH[OF m'(1)] have "closes (Suc d) m'" .
    then obtain w m'' where w: "alternatives w" "closes d m''" "m' = w @ CHR ''}'' # m''"
      by cases auto
    from w(1) have "pattern (CHR ''{'' # w @ [CHR ''}''])" by (rule pattern)
    with w(2) have "closes d ((CHR ''{'' # w @ [CHR ''}'']) @ m'')" by (rule closes_pattern)
    with m'(2) w(3) True show ?thesis by simp
  next
    case False
    note no_open = this
    show ?thesis
    proof (cases "c = CHR ''}''")
      case True
      show ?thesis
      proof (cases d)
        case 0
        with True Cons.prems have "m = [] @ [CHR ''}'']" by simp
        with 0 show ?thesis using closes_0[OF star_nil] by simp
      next
        case (Suc d')
        with True Cons.prems obtain m' where m': "close_brace d' cs = Some (m', r)" "m = c # m'"
          by auto
        from Cons.IH[OF m'(1)] have "closes d' m'" .
        with star_nil have "closes (Suc d') ([] @ CHR ''}'' # m')" by (rule closes_Suc)
        with m'(2) True Suc show ?thesis by simp
      qed
    next
      case False
      with no_open Cons.prems obtain m' where m': "close_brace d cs = Some (m', r)" "m = c # m'"
        by auto
      from Cons.IH[OF m'(1)] have "closes d m'" .
      with m'(2) show ?thesis using closes_char no_open False by simp
    qed
  qed
qed

lemma match_here_sound:
  assumes "match_here s = Some (m, r)" shows "pattern m"
proof (cases s)
  case Nil
  with assms show ?thesis by simp
next
  case (Cons c cs)
  with assms obtain m' where m': "c = CHR ''{''" "close_brace 0 cs = Some (m', r)" "m = c # m'"
    by (auto split: if_splits)
  from close_brace_sound[OF m'(2)] obtain w where "alternatives w" "m' = w @ [CHR ''}'']"
    by cases auto
  with m'(1,3) show ?thesis by (simp add: pattern)
qed

lemma match_here_iff: "match_here s = Some (m, r) \<longleftrightarrow> s = m @ r \<and> pattern m"
  using match_here_sound match_here_split match_here_complete by blast

section \<open>What findall returns\<close>

lemma findall_skip_prefix:
  "CHR ''{'' \<notin> set pre \<Longrightarrow> findall (pre @ s) = findall s"
  by (induction pre) auto

lemma findall_no_open_brace: "CHR ''{'' \<notin> set s \<Longrightarrow> findall s = []"
  using findall_skip_prefix[of s "[]"] by simp

lemma findall_at_span:
  assumes "pattern m" shows "findall (m @ suf) = m # findall suf"
proof -
  from assms obtain c cs where m: "m = c # cs" by cases auto
  show ?thesis using match_here_complete[OF assms, of suf] unfolding m by simp
qed

lemma findall_first:
  assumes "CHR ''{'' \<notin> set pre" "pattern m"
  shows "findall (pre @ m @ suf) = m # findall suf"
  using assms by (simp add: findall_skip_prefix findall_at_span)

lemma findall_Nil_iff:
  "findall s = [] \<longleftrightarrow> \<not> (\<exists>pre m suf. s = pre @ m @ suf \<and> pattern m)"
proof (induction s rule: findall.induct)
  case 1
  have "\<not> pattern []" by (auto elim: pattern.cases)
  then show ?case by auto
next
  case (2 c cs)
  show ?case
  proof (cases "match_here (c # cs)")
    case None
    have "(\<exists>pre m suf. c # cs = pre @ m @ suf \<and> pattern m) \<longleftrightarrow> (\<exists>pre m suf. cs = pre @ m @ suf \<and> pattern m)"
    proof
      assume "\<exists>pre m suf. c # cs = pre @ m @ suf \<and> pattern m"
      then obtain pre m suf where h: "c # cs = pre @ m @ suf" "pattern m" by blast
      show "\<exists>pre m suf. cs = pre @ m @ suf \<and> pattern m"
      proof (cases pre)
        case Nil
        with h match_here_complete[OF h(2), of suf] None show ?thesis by simp
      next
        case (Cons a pre')
        with h show ?thesis by auto
      qed
    next
      assume "\<exists>pre m suf. cs = pre @ m @ suf \<and> pattern m"
      then obtain pre m suf where "cs = pre @ m @ suf" "pattern m" by blast
      then have "c # cs = (c # pre) @ m @ suf \<and> pattern m" by simp
      then show "\<exists>pre m suf. c # cs = pre @ m @ suf \<and> pattern m" by blast
    qed
    with None 2(1) show ?thesis by simp
  next
    case (Some a)
    obtain m r where a: "a = (m, r)" by (cases a)
    with Some have "match_here (c # cs) = Some (m, r)" by (simp only:)
    then have "c # cs = m @ r" "pattern m"
      using match_here_sound match_here_split by blast+
    then have "c # cs = [] @ m @ r \<and> pattern m" by simp
    then have "\<exists>pre m suf. c # cs = pre @ m @ suf \<and> pattern m" by blast
    with Some a show ?thesis by simp
  qed
qed

lemma findall_leftmost:
  "findall s = m # ms \<Longrightarrow>
     \<exists>pre suf. s = pre @ m @ suf \<and> pattern m \<and> ms = findall suf \<and> leftmost pre s"
proof (induction s rule: findall.induct)
  case 1
  then show ?case by simp
next
  case (2 c cs)
  show ?case
  proof (cases "match_here (c # cs)")
    case None
    with 2 obtain pre suf where h: "cs = pre @ m @ suf" "pattern m" "ms = findall suf"
      "leftmost pre cs"
      by auto
    have "length (c # pre) \<le> length p" if "c # cs = p @ x @ q" "pattern x" for p x q
    proof (cases p)
      case Nil
      with that match_here_complete[OF that(2), of q] None show ?thesis by simp
    next
      case (Cons a p')
      with that h(4) show ?thesis by (auto simp: leftmost_def)
    qed
    then have "leftmost (c # pre) (c # cs)" unfolding leftmost_def by blast
    with h(1,2,3) have "c # cs = (c # pre) @ m @ suf \<and> pattern m \<and> ms = findall suf \<and>
       leftmost (c # pre) (c # cs)"
      by simp
    then show ?thesis by blast
  next
    case (Some a)
    obtain m' r where a: "a = (m', r)" by (cases a)
    with Some 2(3) have eq: "m' = m" "ms = findall r" by auto
    from Some a have "match_here (c # cs) = Some (m', r)" by (simp only:)
    then have "c # cs = m' @ r" "pattern m'"
      using match_here_sound match_here_split by blast+
    with eq have "c # cs = [] @ m @ r \<and> pattern m \<and> ms = findall r \<and> leftmost [] (c # cs)"
      by (simp add: leftmost_def)
    then show ?thesis by blast
  qed
qed

lemma findall_of_leftmost:
  "pattern m \<Longrightarrow> leftmost pre (pre @ m @ suf) \<Longrightarrow> findall (pre @ m @ suf) = m # findall suf"
proof (induction pre)
  case Nil
  then show ?case by (simp add: findall_at_span)
next
  case (Cons c pre)
  have none: "match_here (c # pre @ m @ suf) = None"
  proof (cases "match_here (c # pre @ m @ suf)")
    case None
    then show ?thesis .
  next
    case (Some a)
    obtain x q where "a = (x, q)" by (cases a)
    with Some have "match_here (c # pre @ m @ suf) = Some (x, q)" by (simp only:)
    then have "(c # pre) @ m @ suf = [] @ x @ q" "pattern x"
      using match_here_sound match_here_split by fastforce+
    with Cons.prems(2) have "length (c # pre) \<le> length ([]::string)"
      unfolding leftmost_def by blast
    then show ?thesis by simp
  qed
  have "leftmost pre (pre @ m @ suf)"
    unfolding leftmost_def
  proof (intro allI impI)
    fix p x q assume "pre @ m @ suf = p @ x @ q \<and> pattern x"
    then have "(c # pre) @ m @ suf = (c # p) @ x @ q \<and> pattern x" by simp
    with Cons.prems(2) have "length (c # pre) \<le> length (c # p)"
      unfolding leftmost_def by blast
    then show "length pre \<le> length p" by simp
  qed
  with Cons.IH Cons.prems(1) have "findall (pre @ m @ suf) = m # findall suf" by blast
  with none show ?case by simp
qed

section \<open>The decoder consumes its input\<close>

text \<open>
  Every value that the decoder reads takes at least one character, so the length test in
  the two loops is always passed and the loops satisfy their equations without it.
\<close>

lemma int_part_shorter: "int_part s = Some (ip, r) \<Longrightarrow> length r < length s"
  using length_dropWhile_le[of is_digit "tl s"]
  by (cases s) (auto simp: int_part_def split: if_splits)

lemma frac_part_length: "length (snd (frac_part s)) \<le> length s"
proof (cases s)
  case Nil
  then show ?thesis by (simp add: frac_part_def)
next
  case (Cons p t)
  show ?thesis
  proof (cases t)
    case Nil
    with Cons show ?thesis by (simp add: frac_part_def)
  next
    case (Cons f r)
    with \<open>s = p # t\<close> length_dropWhile_le[of is_digit r] show ?thesis
      by (simp add: frac_part_def)
  qed
qed

lemma exp_part_length: "length (snd (exp_part s)) \<le> length s"
proof (cases s)
  case Nil
  then show ?thesis by (simp add: exp_part_def)
next
  case (Cons e t)
  show ?thesis
  proof (cases t)
    case Nil
    with Cons show ?thesis by (simp add: exp_part_def)
  next
    case (Cons x r)
    with \<open>s = e # t\<close> length_dropWhile_le[of is_digit r] length_dropWhile_le[of is_digit "x # r"]
    show ?thesis
      by (auto simp: exp_part_def Let_def split: if_splits)
  qed
qed

lemma match_number_shorter:
  assumes "match_number s = Some (v, r)" shows "length r < length s"
proof -
  define s1 where "s1 = snd (case s of [] \<Rightarrow> ([], s) | c # r \<Rightarrow> if c = CHR ''-'' then ([c], r) else ([], s))"
  have s1: "length s1 \<le> length s" by (auto simp: s1_def split: list.splits)
  from assms obtain ip s2 where ip: "int_part s1 = Some (ip, s2)"
    and r: "r = snd (exp_part (snd (frac_part s2)))"
    by (auto simp: match_number_def s1_def Let_def split_def split: option.splits if_splits list.splits)
  from int_part_shorter[OF ip] frac_part_length[of s2] exp_part_length[of "snd (frac_part s2)"] s1 r
  show ?thesis by simp
qed

declare parse_object.simps [simp del] parse_array.simps [simp del]

lemma scan_once_shorter:
  "(\<forall>v r. scan_once s = Some (v, r) \<longrightarrow> length r < length s)"
  "(\<forall>v r. parse_object ro so = Some (v, r) \<longrightarrow> length r < length so)"
  "(\<forall>v r. parse_array ra sa = Some (v, r) \<longrightarrow> length r < length sa)"
proof (induction s and ro so and ra sa rule: scan_once_parse_object_parse_array.induct)
  case 1
  show ?case by simp
next
  case (2 c cs)
  show ?case
  proof (intro allI impI)
    fix v r assume a: "scan_once (c # cs) = Some (v, r)"
    have ws: "length (skip_whitespace cs) \<le> length cs" by (rule skip_whitespace_length)
    consider (str) "c = CHR 0x22" | (obj) "c \<noteq> CHR 0x22" "c = CHR ''{''"
      | (arr) "c \<noteq> CHR 0x22" "c \<noteq> CHR ''{''" "c = CHR ''[''"
      | (other) "c \<noteq> CHR 0x22" "c \<noteq> CHR ''{''" "c \<noteq> CHR ''[''" by blast
    then show "length r < length (c # cs)"
    proof cases
      case str
      with a show ?thesis by (auto dest: scanstring_shorter)
    next
      case obj
      show ?thesis
      proof (cases "take 1 (skip_whitespace cs) = ''}''")
        case True
        with a obj ws show ?thesis by (auto simp: Let_def)
      next
        case False
        with a obj have "parse_object [] (skip_whitespace cs) = Some (v, r)" by (simp add: Let_def)
        with "2.IH"(1)[OF obj refl False] ws show ?thesis by fastforce
      qed
    next
      case arr
      show ?thesis
      proof (cases "take 1 (skip_whitespace cs) = '']''")
        case True
        with a arr ws show ?thesis by (auto simp: Let_def)
      next
        case False
        with a arr have "parse_array [] (skip_whitespace cs) = Some (v, r)" by (simp add: Let_def)
        with "2.IH"(2)[OF arr refl False] ws show ?thesis by fastforce
      qed
    next
      case other
      with a show ?thesis
        by (auto split: if_splits dest: match_number_shorter)
    qed
  qed
next
  case (3 rval s)
  show ?case
  proof (intro allI impI)
    fix v r assume a: "parse_object rval s = Some (v, r)"
    from a have q: "\<not> take 1 s \<noteq> [CHR 0x22]"
      by (subst (asm) parse_object.simps) (auto split: if_splits)
    from a q obtain key s2 where k: "scanstring (drop 1 s) = Some (key, s2)"
      by (subst (asm) parse_object.simps) (auto split: if_splits option.splits)
    define s3 where "s3 = skip_whitespace s2"
    from a q k have col: "\<not> take 1 s3 \<noteq> '':''"
      by (subst (asm) parse_object.simps) (auto simp: s3_def Let_def split: if_splits option.splits)
    from a q k col obtain val s4 where v: "scan_once (skip_whitespace (drop 1 s3)) = Some (val, s4)"
      by (subst (asm) parse_object.simps) (auto simp: s3_def Let_def split: if_splits option.splits)
    define s5 where "s5 = skip_whitespace s4"
    define rval' where "rval' = dict_setitem rval key val"
    have l2: "length s2 < length (drop 1 s)" using k by (rule scanstring_shorter)
    have l3: "length s3 \<le> length s2" unfolding s3_def by (rule skip_whitespace_length)
    have l4: "length s4 < length (skip_whitespace (drop 1 s3))"
      using "3.IH"(1)[OF q k refl s3_def col] v by blast
    have l4': "length (skip_whitespace (drop 1 s3)) \<le> length s3"
      using skip_whitespace_length[of "drop 1 s3"] by simp
    have l5: "length s5 \<le> length s4" unfolding s5_def by (rule skip_whitespace_length)
    from l2 l3 l4 l4' l5 have l5s: "length s5 < length s" by simp
    show "length r < length s"
    proof (cases "take 1 s5 = ''}''")
      case True
      with a q k col v have "r = drop 1 s5"
        by (subst (asm) parse_object.simps)
           (auto simp: s3_def[symmetric] s5_def[symmetric] Let_def split: if_splits)
      with l5s show ?thesis by auto
    next
      case False
      with a q k col v have c: "\<not> take 1 s5 \<noteq> '',''" "length s5 \<le> length s"
        "parse_object rval' (skip_whitespace (drop 1 s5)) = Some (v, r)"
        by (subst (asm) parse_object.simps,
            auto simp: s3_def[symmetric] s5_def[symmetric] rval'_def Let_def split: if_splits)+
      from "3.IH"(2)[OF q k refl s3_def col v refl rval'_def s5_def False c(1,2)] c(3)
      have "length r < length (skip_whitespace (drop 1 s5))" by blast
      with skip_whitespace_length[of "drop 1 s5"] l5s show ?thesis by simp
    qed
  qed
next
  case (4 rval s)
  show ?case
  proof (intro allI impI)
    fix v r assume a: "parse_array rval s = Some (v, r)"
    from a obtain val s1 where v: "scan_once s = Some (val, s1)"
      by (subst (asm) parse_array.simps) (auto split: option.splits)
    define s2 where "s2 = skip_whitespace s1"
    define rval' where "rval' = rval @ [val]"
    have l1: "length s1 < length s" using "4.IH"(1) v by blast
    have l2: "length s2 \<le> length s1" unfolding s2_def by (rule skip_whitespace_length)
    show "length r < length s"
    proof (cases "take 1 s2 = '']''")
      case True
      with a v have "r = drop 1 s2"
        by (subst (asm) parse_array.simps)
           (auto simp: s2_def[symmetric] Let_def split: if_splits)
      with l1 l2 show ?thesis by auto
    next
      case False
      with a v have c: "\<not> take 1 s2 \<noteq> '',''" "length s2 \<le> length s"
        "parse_array rval' (skip_whitespace (drop 1 s2)) = Some (v, r)"
        by (subst (asm) parse_array.simps,
            auto simp: s2_def[symmetric] rval'_def Let_def split: if_splits)+
      from "4.IH"(2)[OF v refl rval'_def s2_def False c(1,2)] c(3)
      have "length r < length (skip_whitespace (drop 1 s2))" by blast
      with skip_whitespace_length[of "drop 1 s2"] l1 l2 show ?thesis by simp
    qed
  qed
qed

lemma parse_object_unguarded:
  "parse_object rval s =
     (if take 1 s \<noteq> [CHR 0x22] then None
      else case scanstring (drop 1 s) of
        None \<Rightarrow> None
      | Some (key, s2) \<Rightarrow>
          (let s3 = skip_whitespace s2
           in if take 1 s3 \<noteq> '':'' then None
              else case scan_once (skip_whitespace (drop 1 s3)) of
                None \<Rightarrow> None
              | Some (val, s4) \<Rightarrow>
                  (let rval' = dict_setitem rval key val; s5 = skip_whitespace s4
                   in if take 1 s5 = ''}'' then Some (JObject rval', drop 1 s5)
                      else if take 1 s5 \<noteq> '','' then None
                      else parse_object rval' (skip_whitespace (drop 1 s5)))))"
proof -
  have g: "length (skip_whitespace s4) \<le> length s"
    if "scanstring (drop 1 s) = Some (key, s2)"
      "scan_once (skip_whitespace (drop 1 (skip_whitespace s2))) = Some (val, s4)"
    for key s2 val s4
  proof -
    have "length s4 < length (skip_whitespace (drop 1 (skip_whitespace s2)))"
      using scan_once_shorter(1) that(2) by blast
    also have "\<dots> \<le> length (drop 1 (skip_whitespace s2))" by (rule skip_whitespace_length)
    also have "\<dots> \<le> length (skip_whitespace s2)" by simp
    also have "\<dots> \<le> length s2" by (rule skip_whitespace_length)
    also have "\<dots> \<le> length s" using scanstring_shorter[OF that(1)] by simp
    finally have "length s4 < length s" .
    with skip_whitespace_length[of s4] show ?thesis by simp
  qed
  show ?thesis
    by (subst parse_object.simps) (auto simp: Let_def g split: option.splits)
qed

lemma parse_array_unguarded:
  "parse_array rval s =
     (case scan_once s of
        None \<Rightarrow> None
      | Some (val, s1) \<Rightarrow>
          (let rval' = rval @ [val]; s2 = skip_whitespace s1
           in if take 1 s2 = '']'' then Some (JArray rval', drop 1 s2)
              else if take 1 s2 \<noteq> '','' then None
              else parse_array rval' (skip_whitespace (drop 1 s2))))"
proof -
  have g: "length (skip_whitespace s1) \<le> length s" if "scan_once s = Some (val, s1)" for val s1
  proof -
    have "length s1 < length s" using scan_once_shorter(1) that by blast
    with skip_whitespace_length[of s1] show ?thesis by simp
  qed
  show ?thesis
    by (subst parse_array.simps) (auto simp: Let_def g split: option.splits)
qed

section \<open>Properties of prompt construction\<close>

lemma prompt_fstring_fences:
  "prompt_fstring r sc ai = nl @ ''```'' @ r @ ''```'' @ (nl
     @ ''Please extract the findings from the preceding text radiology report using the following JSON schema:'' @ nl
     @ ''```'' @ sc @ ''```'' @ nl @ ai @ nl)"
  by (simp add: prompt_fstring_def)

lemma full_prompt_pipeline:
  "full_prompt (select_full_prompt (templates_cell (user_prompt_cell ai g))) =
     select_template (model g)
       (llama2_fstring (system g) (prompt_fstring (report_text g) (schema g) ai))
       (mistral_fstring (system g) (prompt_fstring (report_text g) (schema g) ai))"
  by (simp add: select_full_prompt_def templates_cell_def user_prompt_cell_def)

text \<open>
  Claim C10. For every report text, system instruction and supported model family
  (\<^verbatim>\<open>llama-2\<close> and \<^verbatim>\<open>mistral\<close>), the fully composed prompt contains the report text verbatim
  as a contiguous substring, enclosed in triple-backtick fences: running the cells that
  build the user prompt, the templates and the selection leaves, in \<open>full_prompt\<close>, the
  three backticks, the report text unchanged and three backticks again.
\<close>

theorem report_text_verbatim_in_full_prompt:
  assumes "model g = ''llama-2'' \<or> model g = ''mistral''"
  shows "sublist (''```'' @ report_text g @ ''```'')
           (full_prompt (select_full_prompt (templates_cell (user_prompt_cell ai g))))"
proof -
  let ?p = "prompt_fstring (report_text g) (schema g) ai"
  obtain post where p: "?p = nl @ (''```'' @ report_text g @ ''```'') @ post"
    using prompt_fstring_fences[of "report_text g" "schema g" ai] by simp
  have l: "sublist (''```'' @ report_text g @ ''```'') (llama2_fstring (system g) ?p)"
    unfolding llama2_fstring_def p sublist_def
    by (rule exI[of _ "''[INST] <<SYS>>'' @ nl @ system g @ nl @ ''<</SYS>>'' @ nl @ nl"],
        rule exI[of _ "post @ ''[/INST]'' @ nl"]) simp
  have m: "sublist (''```'' @ report_text g @ ''```'') (mistral_fstring (system g) ?p)"
    unfolding mistral_fstring_def p sublist_def
    by (rule exI[of _ "''<s>[INST] '' @ system g @ '' '' @ nl"],
        rule exI[of _ "post @ '' [/INST]''"]) simp
  from assms l m show ?thesis
    unfolding full_prompt_pipeline select_template_def by auto
qed

theorem report_text_verbatim_in_full_prompt_witness:
  "sublist (''```'' @ ''No acute cardiopulmonary abnormality.'' @ ''```'')
     (full_prompt (select_full_prompt (templates_cell (user_prompt_cell ''Note.''
        (kernel_start\<lparr>model := ''mistral'', system := ''You are an assistant.'',
           schema := ''{}'', report_text := ''No acute cardiopulmonary abnormality.''\<rparr>)))))"
  using report_text_verbatim_in_full_prompt
    [of "kernel_start\<lparr>model := ''mistral'', system := ''You are an assistant.'',
           schema := ''{}'', report_text := ''No acute cardiopulmonary abnormality.''\<rparr>" "''Note.''"]
  by simp

text \<open>
  Claim C7. Task-prompt construction is pure and deterministic: two runs of the cell
  "Construct User prompt" with the same report text, schema text and additional
  instructions leave the same string in \<open>prompt\<close>, whatever else the two kernels hold.
\<close>

theorem build_task_prompt_deterministic:
  assumes "report_text g1 = report_text g2" and "schema g1 = schema g2"
  shows "prompt (user_prompt_cell ai g1) = prompt (user_prompt_cell ai g2)"
  using assms by (simp add: user_prompt_cell_def)

theorem build_task_prompt_deterministic_witness:
  "prompt (user_prompt_cell ''Note.''
     (kernel_start\<lparr>report_text := ''Normal.'', schema := ''{}'', model := ''llama-2'', res_txt := ''x''\<rparr>))
   = prompt (user_prompt_cell ''Note.''
     (kernel_start\<lparr>report_text := ''Normal.'', schema := ''{}'', model := ''mistral'', prompt := ''old''\<rparr>))"
  using build_task_prompt_deterministic
    [of "kernel_start\<lparr>report_text := ''Normal.'', schema := ''{}'', model := ''llama-2'', res_txt := ''x''\<rparr>"
        "kernel_start\<lparr>report_text := ''Normal.'', schema := ''{}'', model := ''mistral'', prompt := ''old''\<rparr>"
        "''Note.''"]
  by simp

text \<open>
  Claim C2, as stated: applying the chat template with a model family that has no template
  entry always fails with an UnsupportedModelFamily error and mutates no state. The cell
  has an \<^verbatim>\<open>else\<close> branch instead: with the selector \<^verbatim>\<open>vicuna\<close> it stores the Mistral template
  in \<open>full_prompt\<close> and raises nothing.
\<close>

theorem unknown_model_family_counterexample:
  "select_full_prompt
     (kernel_start\<lparr>model := ''vicuna'', llama2_prompt_template := ''L'', mistral_prompt_template := ''M''\<rparr>)
   = kernel_start\<lparr>model := ''vicuna'', llama2_prompt_template := ''L'', mistral_prompt_template := ''M'',
       full_prompt := ''M''\<rparr>"
  by (simp add: select_full_prompt_def select_template_def)

text \<open>
  Claim C2, amended: every model selector other than \<^verbatim>\<open>llama-2\<close>, a known one or not, gets
  the Mistral template: the selection assigns \<open>full_prompt\<close>, changes no other variable
  and raises no error. The cell that selects the model file takes the Mistral file for
  such a selector in the same way.
\<close>

theorem unknown_model_family_gets_mistral:
  assumes "model g \<noteq> ''llama-2''"
  shows "select_full_prompt g = g\<lparr>full_prompt := mistral_prompt_template g\<rparr>
         \<and> model_name (select_model_cell (model g) g) = ''TheBloke/Mistral-7B-Instruct-v0.1-GGUF''
         \<and> model_basename (select_model_cell (model g) g) = ''mistral-7b-instruct-v0.1.Q4_K_M.gguf''"
  using assms by (simp add: select_full_prompt_def select_template_def select_model_cell_def)

theorem unknown_model_family_gets_mistral_witness:
  "select_full_prompt (kernel_start\<lparr>model := ''vicuna'', mistral_prompt_template := ''M''\<rparr>)
     = kernel_start\<lparr>model := ''vicuna'', mistral_prompt_template := ''M'', full_prompt := ''M''\<rparr>
   \<and> model_name (select_model_cell ''vicuna'' (kernel_start\<lparr>model := ''vicuna'', mistral_prompt_template := ''M''\<rparr>))
     = ''TheBloke/Mistral-7B-Instruct-v0.1-GGUF''"
  using unknown_model_family_gets_mistral
    [of "kernel_start\<lparr>model := ''vicuna'', mistral_prompt_template := ''M''\<rparr>"]
  by (simp add: kernel_start_def)

section \<open>Properties of response extraction\<close>

text \<open>The definitions that \<open>simp\<close> unfolds to run the decoder on a concrete text.\<close>

lemmas decoder_eval =
  json_from_str_def json_loads_def skip_whitespace_def is_whitespace_def
  parse_object.simps parse_array.simps cons_chunk_def scan_escape_def backslash_def
  match_number_def int_part_def frac_part_def exp_part_def is_digit_def int_of_digits_def
  code_points_def hex_digit_def is_high_surrogate_def is_low_surrogate_def join_surrogates_def

lemma pattern_code: "pattern m \<longleftrightarrow> match_here m = Some (m, [])"
  using match_here_iff[of m m "[]"] by simp

lemma pattern_starts_with_brace: "pattern x \<Longrightarrow> \<exists>t. x = CHR ''{'' # t"
  by (auto elim: pattern.cases)

lemma leftmost_no_open_brace:
  assumes "CHR ''{'' \<notin> set pre" shows "leftmost pre (pre @ r)"
  unfolding leftmost_def
proof (intro allI impI)
  fix p x q assume h: "pre @ r = p @ x @ q \<and> pattern x"
  then obtain t where x: "x = CHR ''{'' # t" using pattern_starts_with_brace by blast
  show "length pre \<le> length p"
  proof (rule ccontr)
    assume "\<not> length pre \<le> length p"
    then have lt: "length p < length pre" by simp
    from h x have "(pre @ r) ! length p = CHR ''{''" by (simp add: nth_append)
    with lt have "pre ! length p = CHR ''{''" by (simp add: nth_append)
    with lt assms show False using nth_mem by fastforce
  qed
qed

lemma json_from_str_leftmost:
  assumes "pattern m" "leftmost pre (pre @ m @ suf)"
  shows "json_from_str (pre @ m @ suf) = (case json_loads m of Inl e \<Rightarrow> Inl e | Inr v \<Rightarrow> Inr (Some v))"
  using findall_of_leftmost[OF assms] by (simp add: json_from_str_def)

lemma json_from_str_first_span:
  assumes "CHR ''{'' \<notin> set pre" "pattern m"
  shows "json_from_str (pre @ m @ suf) = (case json_loads m of Inl e \<Rightarrow> Inl e | Inr v \<Rightarrow> Inr (Some v))"
  using json_from_str_leftmost[OF assms(2) leftmost_no_open_brace[OF assms(1)]] .

lemma json_from_str_None_iff:
  "json_from_str s = Inr None \<longleftrightarrow> \<not> (\<exists>pre m suf. s = pre @ m @ suf \<and> pattern m)"
proof -
  have "json_from_str s = Inr None \<longleftrightarrow> findall s = []"
    by (auto simp: json_from_str_def split: list.splits sum.splits)
  then show ?thesis by (simp add: findall_Nil_iff)
qed

lemma json_from_str_Some:
  assumes "json_from_str s = Inr (Some v)"
  shows "\<exists>pre m suf. s = pre @ m @ suf \<and> pattern m \<and> leftmost pre s \<and> json_loads m = Inr v"
proof -
  from assms obtain m ms where f: "findall s = m # ms" and l: "json_loads m = Inr v"
    by (auto simp: json_from_str_def split: list.splits sum.splits)
  from findall_leftmost[OF f] l show ?thesis by blast
qed




text \<open>
  Claim C6. For every input text containing no \<^verbatim>\<open>{\<close> character, the empty string
  included, extraction returns the "no object found" value \<^verbatim>\<open>None\<close> and does not raise.
\<close>

theorem no_open_brace_no_object:
  assumes "CHR ''{'' \<notin> set s"
  shows "json_from_str s = Inr None"
  using findall_no_open_brace[OF assms] by (simp add: json_from_str_def)

theorem no_open_brace_no_object_witness:
  "json_from_str [] = Inr None \<and> json_from_str ''No acute findings. Normal study}'' = Inr None"
proof
  show "json_from_str [] = Inr None" by (rule no_open_brace_no_object) simp
  show "json_from_str ''No acute findings. Normal study}'' = Inr None"
    by (rule no_open_brace_no_object) simp
qed

text \<open>
  Claim C1, as stated: a balanced-brace span that fails to parse is discarded and the scan
  continues, and when no candidate parses the result is "no structured object found"
  rather than an exception. In \<^verbatim>\<open>{oops} {"a": true}\<close> the first span does not parse and the
  second does; \<^verbatim>\<open>json_from_str\<close> decodes \<^verbatim>\<open>res[0]\<close> only and the error of \<^verbatim>\<open>json.loads\<close>
  leaves the function. It does so too when the unparseable span is the only one.
\<close>

theorem unparseable_candidate_counterexample:
  "findall ''{oops} {\"a\": true}'' = [''{oops}'', ''{\"a\": true}'']
   \<and> json_loads ''{oops}'' = Inl JSONDecodeError
   \<and> json_loads ''{\"a\": true}'' = Inr (JObject [(code_points ''a'', JBool True)])
   \<and> json_from_str ''{oops} {\"a\": true}'' = Inl JSONDecodeError
   \<and> json_from_str ''{oops}'' = Inl JSONDecodeError"
  by (simp add: decoder_eval)

text \<open>
  Claim C1, amended: a text in which no balanced-brace span occurs gives \<^verbatim>\<open>None\<close> without
  an exception. Otherwise only the leftmost balanced-brace span is decoded: when it fails
  to parse, the decode error is raised, whatever follows the span; no later candidate is
  tried.
\<close>

theorem first_span_decides:
  "(\<not> (\<exists>pre m suf. s = pre @ m @ suf \<and> pattern m) \<longrightarrow> json_from_str s = Inr None)
   \<and> (\<forall>pre m suf e. s = pre @ m @ suf \<and> pattern m \<and> leftmost pre s \<and> json_loads m = Inl e
         \<longrightarrow> json_from_str s = Inl e)"
proof (intro conjI allI impI)
  assume "\<not> (\<exists>pre m suf. s = pre @ m @ suf \<and> pattern m)"
  then show "json_from_str s = Inr None" by (simp add: json_from_str_None_iff)
next
  fix pre m suf e
  assume h: "s = pre @ m @ suf \<and> pattern m \<and> leftmost pre s \<and> json_loads m = Inl e"
  then have "json_from_str (pre @ m @ suf) = (case json_loads m of Inl e \<Rightarrow> Inl e | Inr v \<Rightarrow> Inr (Some v))"
    by (intro json_from_str_leftmost) auto
  with h show "json_from_str s = Inl e" by simp
qed

theorem first_span_decides_witness:
  "json_from_str ''Impression: { normal'' = Inr None
   \<and> json_from_str (''Labels: '' @ ''{oops}'' @ '' {\"a\": true}'') = Inl JSONDecodeError"
proof
  have "\<not> (\<exists>pre m suf. ''Impression: { normal'' = pre @ m @ suf \<and> pattern m)"
    unfolding findall_Nil_iff[symmetric] by simp
  with first_span_decides[of "''Impression: { normal''"]
  show "json_from_str ''Impression: { normal'' = Inr None" by blast
next
  let ?s = "''Labels: '' @ ''{oops}'' @ '' {\"a\": true}''"
  have p: "pattern ''{oops}''" by (simp add: pattern_code)
  have l: "leftmost ''Labels: '' ?s" by (rule leftmost_no_open_brace) simp
  have e: "json_loads ''{oops}'' = Inl JSONDecodeError" by (simp add: decoder_eval)
  from first_span_decides[of ?s] p l e
  show "json_from_str ?s = Inl JSONDecodeError" by blast
qed




text \<open>
  Claim C4, as stated: extraction returns the first successfully parsed candidate, and of
  two sequential valid JSON objects only the first. For the two valid objects
  \<^verbatim>\<open>{"a": "{"}\<close> and \<^verbatim>\<open>{"b": 1}\<close> in sequence the first match is the span \<^verbatim>\<open>{"}\<close>, and
  extraction raises instead of returning the first object.
\<close>

theorem two_objects_counterexample:
  "json_loads ''{\"a\": \"{\"}'' = Inr (JObject [(code_points ''a'', JString (code_points ''{''))])
   \<and> json_loads ''{\"b\": 1}'' = Inr (JObject [(code_points ''b'', JInt 1)])
   \<and> json_from_str (''{\"a\": \"{\"}'' @ '' '' @ ''{\"b\": 1}'') = Inl JSONDecodeError"
  by (simp add: decoder_eval)

text \<open>
  Claim C4, amended: whenever extraction returns an object, it is the decoded leftmost
  balanced-brace span of the text (braces inside string literals counted), not a larger
  or a later one. In particular, when the text holds two sequential valid JSON objects
  that are themselves balanced-brace spans, after a prefix without \<^verbatim>\<open>{\<close>, only the first
  is returned.
\<close>

theorem leftmost_span_is_returned:
  "(json_from_str s = Inr (Some v) \<longrightarrow>
      (\<exists>pre m suf. s = pre @ m @ suf \<and> pattern m \<and> leftmost pre s \<and> json_loads m = Inr v))
   \<and> (\<forall>pre o1 mid o2 post v1 v2.
         s = pre @ o1 @ mid @ o2 @ post \<and> CHR ''{'' \<notin> set pre \<and> pattern o1 \<and> pattern o2
           \<and> json_loads o1 = Inr v1 \<and> json_loads o2 = Inr v2
         \<longrightarrow> json_from_str s = Inr (Some v1))"
proof (intro conjI allI impI)
  assume "json_from_str s = Inr (Some v)"
  then show "\<exists>pre m suf. s = pre @ m @ suf \<and> pattern m \<and> leftmost pre s \<and> json_loads m = Inr v"
    by (rule json_from_str_Some)
next
  fix pre o1 mid o2 post v1 v2
  assume h: "s = pre @ o1 @ mid @ o2 @ post \<and> CHR ''{'' \<notin> set pre \<and> pattern o1 \<and> pattern o2
           \<and> json_loads o1 = Inr v1 \<and> json_loads o2 = Inr v2"
  then have "json_from_str (pre @ o1 @ (mid @ o2 @ post))
      = (case json_loads o1 of Inl e \<Rightarrow> Inl e | Inr v \<Rightarrow> Inr (Some v))"
    by (intro json_from_str_first_span) auto
  with h show "json_from_str s = Inr (Some v1)" by simp
qed

theorem leftmost_span_is_returned_witness:
  "json_from_str (''Answer: '' @ ''{\"a\": true}'' @ '' Again: '' @ ''{\"a\": false, \"b\": {}}'' @ ''.'')
     = Inr (Some (JObject [(code_points ''a'', JBool True)]))
   \<and> (\<exists>pre m suf. ''Answer: '' @ ''{\"a\": true}'' @ '' Again: '' @ ''{\"a\": false, \"b\": {}}'' @ ''.'' = pre @ m @ suf
         \<and> pattern m
         \<and> leftmost pre (''Answer: '' @ ''{\"a\": true}'' @ '' Again: '' @ ''{\"a\": false, \"b\": {}}'' @ ''.'')
         \<and> json_loads m = Inr (JObject [(code_points ''a'', JBool True)]))"
proof -
  let ?s = "''Answer: '' @ ''{\"a\": true}'' @ '' Again: '' @ ''{\"a\": false, \"b\": {}}'' @ ''.''"
  let ?v1 = "JObject [(code_points ''a'', JBool True)]"
  let ?v2 = "JObject [(code_points ''a'', JBool False), (code_points ''b'', JObject [])]"
  have p1: "pattern ''{\"a\": true}''" by (simp add: pattern_code)
  have p2: "pattern ''{\"a\": false, \"b\": {}}''" by (simp add: pattern_code)
  have l1: "json_loads ''{\"a\": true}'' = Inr ?v1" by (simp add: decoder_eval)
  have l2: "json_loads ''{\"a\": false, \"b\": {}}'' = Inr ?v2" by (simp add: decoder_eval)
  have nb: "CHR ''{'' \<notin> set ''Answer: ''" by simp
  from leftmost_span_is_returned[of ?s ?v1] p1 p2 l1 l2 nb
  have r: "json_from_str ?s = Inr (Some ?v1)" by blast
  with leftmost_span_is_returned[of ?s ?v1] show ?thesis by blast
qed

text \<open>
  Claim C5, as stated: for every valid JSON object and every surrounding prose without
  unbalanced braces, extraction returns the object. Prose with a balanced pair of braces
  before the object makes the prose span the first match, and an object with an unbalanced
  brace inside a string value is cut short; extraction raises in both cases.
\<close>

theorem round_trip_counterexample:
  "json_loads ''{\"a\": true}'' = Inr (JObject [(code_points ''a'', JBool True)])
   \<and> json_from_str (''See {findings} below: '' @ ''{\"a\": true}'' @ '' Done.'') = Inl JSONDecodeError
   \<and> json_loads ''{\"n\": \"1}\"}'' = Inr (JObject [(code_points ''n'', JString (code_points ''1}''))])
   \<and> json_from_str (''Labels: '' @ ''{\"n\": \"1}\"}'' @ '' Done.'') = Inl JSONDecodeError"
  by (simp add: decoder_eval)

text \<open>
  Claim C5, amended: for every JSON object text that is itself a balanced-brace span
  (braces inside its string values counted) and decodes to a value, every prose before it
  that contains no \<^verbatim>\<open>{\<close>, and every text after it, extraction on the prose with the object
  embedded returns that value unchanged.
\<close>

theorem round_trip_through_brace_free_prose:
  assumes "CHR ''{'' \<notin> set before" and "pattern obj" and "json_loads obj = Inr v"
  shows "json_from_str (before @ obj @ after) = Inr (Some v)"
  using json_from_str_first_span[OF assms(1,2), of after] assms(3) by simp

theorem round_trip_through_brace_free_prose_witness:
  "json_from_str (''Sure! '' @ ''{\"cardiomegaly\": false, \"note\": \"a {nested} brace\"}'' @ '' I hope this helps}'')
   = Inr (Some (JObject [(code_points ''cardiomegaly'', JBool False),
                         (code_points ''note'', JString (code_points ''a {nested} brace''))]))"
proof (rule round_trip_through_brace_free_prose)
  show "CHR ''{'' \<notin> set ''Sure! ''" by simp
  show "pattern ''{\"cardiomegaly\": false, \"note\": \"a {nested} brace\"}''"
    by (simp add: pattern_code)
  show "json_loads ''{\"cardiomegaly\": false, \"note\": \"a {nested} brace\"}''
     = Inr (JObject [(code_points ''cardiomegaly'', JBool False),
                     (code_points ''note'', JString (code_points ''a {nested} brace''))])"
    by (simp add: decoder_eval)
qed

text \<open>
  The recorded run: on the completion that the notebook shows, the model returns the
  dictionary that the notebook shows for \<^verbatim>\<open>result_dict[1]\<close>, with the key
  \<^verbatim>\<open>pulmonary_rama\<close> that the schema does not have.
\<close>

lemma notebook_recorded_labels:
  "json_from_str notebook_res_txt = Inr (Some (JObject
    [(code_points ''cardiomegaly'', JBool False),
     (code_points ''lung_opacity'', JBool True),
     (code_points ''pneumothorax'', JBool False),
     (code_points ''pleural_effusion'', JBool False),
     (code_points ''pulmonary_rama'', JBool False),
     (code_points ''abnormal_study'', JBool True)]))"
  by code_simp

text \<open>
  Claim C9. Extraction never filters by schema: whatever the schema text is, the cell that
  extracts the labels stores as the label record exactly the value decoded from the
  response, so that keys which the schema does not have are passed through unchanged.
\<close>

theorem extraction_ignores_schema:
  assumes "json_from_str (res_txt g) = Inr l"
  shows "extract_cell (g\<lparr>schema := sc\<rparr>)
         = Inr (g\<lparr>schema := sc, id' := 1, labels := l, result_dict := [1 \<mapsto> l]\<rparr>)"
  using assms by (simp add: extract_cell_def)

theorem extraction_ignores_schema_witness:
  "extract_cell (kernel_start\<lparr>res_txt := notebook_res_txt, schema := notebook_schema\<rparr>)
   = Inr (kernel_start\<lparr>res_txt := notebook_res_txt, schema := notebook_schema, id' := 1,
       labels := Some (JObject
         [(code_points ''cardiomegaly'', JBool False),
          (code_points ''lung_opacity'', JBool True),
          (code_points ''pneumothorax'', JBool False),
          (code_points ''pleural_effusion'', JBool False),
          (code_points ''pulmonary_rama'', JBool False),
          (code_points ''abnormal_study'', JBool True)]),
       result_dict := [1 \<mapsto> Some (JObject
         [(code_points ''cardiomegaly'', JBool False),
          (code_points ''lung_opacity'', JBool True),
          (code_points ''pneumothorax'', JBool False),
          (code_points ''pleural_effusion'', JBool False),
          (code_points ''pulmonary_rama'', JBool False),
          (code_points ''abnormal_study'', JBool True)])]\<rparr>)"
  using extraction_ignores_schema[of "kernel_start\<lparr>res_txt := notebook_res_txt\<rparr>" _ notebook_schema]
    notebook_recorded_labels
  by simp

text \<open>
  Claim C8, as stated: schema construction rejects duplicate or empty finding names with
  MalformedSchema before any prompting occurs. The schema is a string literal that no code
  inspects: a schema text with an empty finding name reaches the prompt, and one with a
  duplicate finding name is stored as it is.
\<close>

theorem malformed_schema_counterexample:
  "json_loads ''{\"\": {\"type\": \"boolean\"}}''
     = Inr (JObject [([], JObject [(code_points ''type'', JString (code_points ''boolean''))])])
   \<and> schema (schema_cell ''{\"\": {\"type\": \"boolean\"}}'' kernel_start) = ''{\"\": {\"type\": \"boolean\"}}''
   \<and> prompt (user_prompt_cell [] (schema_cell ''{\"\": {\"type\": \"boolean\"}}'' (report_cell ''Normal.'' kernel_start)))
     = nl @ ''```Normal.```'' @ nl
       @ ''Please extract the findings from the preceding text radiology report using the following JSON schema:'' @ nl
       @ ''```{\"\": {\"type\": \"boolean\"}}```'' @ nl @ nl
   \<and> json_loads ''{\"a\": {\"type\": \"boolean\"}, \"a\": {\"type\": \"string\"}}''
     = Inr (JObject [(code_points ''a'', JObject [(code_points ''type'', JString (code_points ''string''))])])
   \<and> schema (schema_cell ''{\"a\": {\"type\": \"boolean\"}, \"a\": {\"type\": \"string\"}}'' kernel_start)
     = ''{\"a\": {\"type\": \"boolean\"}, \"a\": {\"type\": \"string\"}}''"
  by (simp add: decoder_eval schema_cell_def report_cell_def user_prompt_cell_def kernel_start_def
      prompt_fstring_def)

text \<open>
  Claim C8, amended: the schema is a text that is not validated anywhere. The cell stores
  every text unchanged, one with duplicate or empty finding names too, and the composed
  prompt carries it verbatim between triple backticks; no schema error is raised.
\<close>

theorem schema_text_is_not_validated:
  "schema (schema_cell txt g) = txt
   \<and> sublist (''```'' @ txt @ ''```'')
        (full_prompt (select_full_prompt (templates_cell (user_prompt_cell ai (schema_cell txt g)))))"
proof
  show "schema (schema_cell txt g) = txt" by (simp add: schema_cell_def)
next
  let ?g = "schema_cell txt g"
  let ?p = "prompt_fstring (report_text ?g) (schema ?g) ai"
  let ?pre = "nl @ ''```'' @ report_text ?g @ ''```'' @ nl
     @ ''Please extract the findings from the preceding text radiology report using the following JSON schema:'' @ nl"
  have p: "?p = ?pre @ (''```'' @ txt @ ''```'') @ (nl @ ai @ nl)"
    by (simp add: prompt_fstring_def schema_cell_def)
  have l: "sublist (''```'' @ txt @ ''```'') (llama2_fstring (system ?g) ?p)"
    unfolding llama2_fstring_def p sublist_def
    by (rule exI[of _ "''[INST] <<SYS>>'' @ nl @ system ?g @ nl @ ''<</SYS>>'' @ nl @ ?pre"],
        rule exI[of _ "(nl @ ai @ nl) @ ''[/INST]'' @ nl"]) simp
  have m: "sublist (''```'' @ txt @ ''```'') (mistral_fstring (system ?g) ?p)"
    unfolding mistral_fstring_def p sublist_def
    by (rule exI[of _ "''<s>[INST] '' @ system ?g @ '' '' @ ?pre"],
        rule exI[of _ "(nl @ ai @ nl) @ '' [/INST]''"]) simp
  from l m show "sublist (''```'' @ txt @ ''```'')
        (full_prompt (select_full_prompt (templates_cell (user_prompt_cell ai ?g))))"
    unfolding full_prompt_pipeline select_template_def by auto
qed

theorem schema_text_is_not_validated_witness:
  "schema (schema_cell ''{\"\": {\"type\": \"boolean\"}}'' (kernel_start\<lparr>model := ''llama-2''\<rparr>))
     = ''{\"\": {\"type\": \"boolean\"}}''
   \<and> sublist (''```'' @ ''{\"\": {\"type\": \"boolean\"}}'' @ ''```'')
        (full_prompt (select_full_prompt (templates_cell (user_prompt_cell ''Note.''
           (schema_cell ''{\"\": {\"type\": \"boolean\"}}'' (kernel_start\<lparr>model := ''llama-2''\<rparr>))))))"
  by (rule schema_text_is_not_validated)

end
